theory Spec2Isabelle
  imports Main "HOL-Library.Word" "HOL-Library.Log_Nat"
begin

section \<open>JavaScript values\<close>

text \<open>
  The LCOV engine (\<^verbatim>\<open>parseLcovData\<close>, \<^verbatim>\<open>lcovToCoverageReport\<close>,
  \<^verbatim>\<open>lcovToJsonSummary\<close>, \<^verbatim>\<open>lcovToJsonFinal\<close>, \<^verbatim>\<open>parseBunLcovSummary\<close>,
  \<^verbatim>\<open>parseBunLcovFinal\<close>) is TypeScript. Its strings are sequences of UTF-16 code
  units, its numbers are IEEE 754 binary64 values.

  A string is a list of 16-bit code units; \<open>js\<close> writes an ASCII literal.
\<close>

type_synonym code_unit = "16 word"
type_synonym jsstring = "code_unit list"

definition js :: "string \<Rightarrow> jsstring" where
  "js s = map (\<lambda>c. of_nat (of_char c)) s"

text \<open>
  \<^verbatim>\<open>String.prototype.trim\<close> and \<^verbatim>\<open>parseInt\<close> strip the code units of the ECMAScript
  productions WhiteSpace and LineTerminator.
\<close>

definition isWhiteSpace :: "code_unit \<Rightarrow> bool" where
  "isWhiteSpace c \<longleftrightarrow>
     c = 0x0009 \<or> c = 0x000A \<or> c = 0x000B \<or> c = 0x000C \<or> c = 0x000D \<or> c = 0x0020 \<or>
     c = 0x00A0 \<or> c = 0x1680 \<or> (0x2000 \<le> c \<and> c \<le> 0x200A) \<or> c = 0x2028 \<or>
     c = 0x2029 \<or> c = 0x202F \<or> c = 0x205F \<or> c = 0x3000 \<or> c = 0xFEFF"

definition trim :: "jsstring \<Rightarrow> jsstring" where
  "trim s = rev (dropWhile isWhiteSpace (rev (dropWhile isWhiteSpace s)))"

definition startsWith :: "jsstring \<Rightarrow> jsstring \<Rightarrow> bool" where
  "startsWith s p \<longleftrightarrow> take (length p) s = p"

definition substring :: "jsstring \<Rightarrow> nat \<Rightarrow> jsstring" where
  "substring s n = drop n s"

text \<open>
  \<^verbatim>\<open>s.split(sep)\<close> for a separator of one code unit: the pieces between the
  separators, at least one piece (\<^verbatim>\<open>"".split("\n")\<close> is \<^verbatim>\<open>[""]\<close>).
\<close>

fun splitFrom :: "code_unit \<Rightarrow> jsstring \<Rightarrow> jsstring \<Rightarrow> jsstring list" where
  "splitFrom sep piece [] = [piece]"
| "splitFrom sep piece (c # cs) =
     (if c = sep then piece # splitFrom sep [] cs else splitFrom sep (piece @ [c]) cs)"

definition js_split :: "code_unit \<Rightarrow> jsstring \<Rightarrow> jsstring list" where
  "js_split sep s = splitFrom sep [] s"

definition newline :: code_unit where
  "newline = 0x000A"

definition comma :: code_unit where
  "comma = 0x002C"

text \<open>
  A number is \<open>NaN\<close> or a finite value, kept as the rational it denotes. The integers
  that \<^verbatim>\<open>parseInt\<close> reads and the sums of the aggregator are kept exact, which is what
  binary64 does for integers of magnitude below \<open>2^53\<close>; beyond that JavaScript rounds
  (and overflows to \<^verbatim>\<open>Infinity\<close>), which this type does not represent. Negative zero is
  identified with zero.
\<close>

datatype jsnum = NaN | Num rat

fun js_add :: "jsnum \<Rightarrow> jsnum \<Rightarrow> jsnum" where
  "js_add (Num a) (Num b) = Num (a + b)"
| "js_add _ _ = NaN"

fun js_gt :: "jsnum \<Rightarrow> jsnum \<Rightarrow> bool" where
  "js_gt (Num a) (Num b) \<longleftrightarrow> b < a"
| "js_gt _ _ \<longleftrightarrow> False"

text \<open>
  Division and multiplication round their exact result to the nearest binary64 value,
  ties to the even significand. \<open>ilog2 x\<close> is the binary exponent of a positive \<open>x\<close>
  (\<open>2 powi ilog2 x \<le> x < 2 powi (ilog2 x + 1)\<close>), and a binary64 value has 53
  significant bits. The exponent range of binary64 is not modelled: the results the
  aggregator computes from integers below \<open>2^53\<close> lie far inside it.
\<close>

definition ilog2 :: "rat \<Rightarrow> int" where
  "ilog2 x = (let (p, q) = quotient_of x; d = bitlen p - bitlen q
              in if 2 powi d \<le> x then d else d - 1)"

definition roundEven :: "rat \<Rightarrow> int" where
  "roundEven x = (let f = \<lfloor>x\<rfloor>; d = x - of_int f
                  in if d < 1 / 2 then f
                     else if 1 / 2 < d then f + 1
                     else if even f then f else f + 1)"

definition fl :: "rat \<Rightarrow> rat" where
  "fl x = (if x = 0 then 0
           else let u = 2 powi (ilog2 \<bar>x\<bar> - 52)
                in sgn x * of_int (roundEven (\<bar>x\<bar> / u)) * u)"

text \<open>
  Division by zero gives an infinity or \<open>NaN\<close> in JavaScript; the engine divides by a
  total only when the total is positive, and by the literal 100.
\<close>

fun js_div :: "jsnum \<Rightarrow> jsnum \<Rightarrow> jsnum" where
  "js_div (Num a) (Num b) = (if b = 0 then NaN else Num (fl (a / b)))"
| "js_div _ _ = NaN"

fun js_mul :: "jsnum \<Rightarrow> jsnum \<Rightarrow> jsnum" where
  "js_mul (Num a) (Num b) = Num (fl (a * b))"
| "js_mul _ _ = NaN"

text \<open>\<^verbatim>\<open>Math.round\<close>: the nearest integer, a tie going to the larger one.\<close>

fun Math_round :: "jsnum \<Rightarrow> jsnum" where
  "Math_round (Num x) = Num (of_int \<lfloor>x + 1 / 2\<rfloor>)"
| "Math_round NaN = NaN"

text \<open>
  \<^verbatim>\<open>parseInt(s, 10)\<close>: leading white space is skipped, one sign is read, then the
  longest run of decimal digits; no digit gives \<open>NaN\<close>. The argument is \<open>None\<close> for
  \<^verbatim>\<open>undefined\<close>, whose string form has no digit.
\<close>

definition isDigit :: "code_unit \<Rightarrow> bool" where
  "isDigit c \<longleftrightarrow> 0x0030 \<le> c \<and> c \<le> 0x0039"

definition digitsValue :: "jsstring \<Rightarrow> nat" where
  "digitsValue ds = foldl (\<lambda>acc c. 10 * acc + (unat c - 48)) 0 ds"

definition parseInt :: "jsstring option \<Rightarrow> jsnum" where
  "parseInt arg =
     (case arg of
        None \<Rightarrow> NaN
      | Some s \<Rightarrow>
          (let t = dropWhile isWhiteSpace s;
               negative = (t \<noteq> [] \<and> hd t = 0x002D);
               body = (if t \<noteq> [] \<and> (hd t = 0x002B \<or> hd t = 0x002D) then tl t else t);
               ds = takeWhile isDigit body
           in if ds = [] then NaN
              else Num (of_int ((if negative then - 1 else 1) * int (digitsValue ds)))))"

section \<open>The record parser\<close>

text \<open>
  The types keep the field names of the source. Three names are reserved words here and
  carry a prime: \<open>functions'\<close> for \<^verbatim>\<open>functions\<close>, and further down \<open>all'\<close> for \<^verbatim>\<open>all\<close> and
  \<open>end'\<close> for \<^verbatim>\<open>end\<close>. Where two types share a field name, the field is written with
  its type in front (\<open>LineData.hit\<close>, \<open>Counts.hit\<close>).
\<close>

record LineData =
  line :: jsnum
  hit :: jsnum

record Counts =
  found :: jsnum
  hit :: jsnum

record LcovRecord =
  sourceFile :: jsstring
  lines :: "LineData list"
  functions' :: Counts
  branches :: Counts

text \<open>
  The state of the loop of \<^verbatim>\<open>parseLcovData\<close>: the output array and the current record
  (\<open>None\<close> for \<^verbatim>\<open>null\<close>). The only object the loop ever stores in \<^verbatim>\<open>currentRecord\<close> is
  the literal of the \<^verbatim>\<open>SF:\<close> branch, which sets all four fields, so a current record is a
  complete \<open>LcovRecord\<close>.
\<close>

record pstate =
  records :: "LcovRecord list"
  currentRecord :: "LcovRecord option"

definition parseLine :: "pstate \<Rightarrow> jsstring \<Rightarrow> pstate" where
  "parseLine st raw =
     (let trimmed = trim raw in
      if trimmed = [] then st
      else if startsWith trimmed (js ''SF:'') then
        st\<lparr>currentRecord := Some \<lparr>sourceFile = substring trimmed 3, lines = [],
              functions' = \<lparr>found = Num 0, hit = Num 0\<rparr>,
              branches = \<lparr>found = Num 0, hit = Num 0\<rparr>\<rparr>\<rparr>
      else if startsWith trimmed (js ''DA:'') then
        (let parts = js_split comma (substring trimmed 3);
             lineNum = parseInt (Some (hd parts));
             hitCount = parseInt (if 1 < length parts then Some (parts ! 1) else None)
         in case currentRecord st of
              None \<Rightarrow> st
            | Some r \<Rightarrow> st\<lparr>currentRecord :=
                Some (r\<lparr>lines := lines r @ [\<lparr>line = lineNum, LineData.hit = hitCount\<rparr>]\<rparr>)\<rparr>)
      else if startsWith trimmed (js ''FNF:'') then
        (case currentRecord st of
           None \<Rightarrow> st
         | Some r \<Rightarrow> st\<lparr>currentRecord :=
             Some (r\<lparr>functions' := (functions' r)\<lparr>found := parseInt (Some (substring trimmed 4))\<rparr>\<rparr>)\<rparr>)
      else if startsWith trimmed (js ''FNH:'') then
        (case currentRecord st of
           None \<Rightarrow> st
         | Some r \<Rightarrow> st\<lparr>currentRecord :=
             Some (r\<lparr>functions' := (functions' r)\<lparr>hit := parseInt (Some (substring trimmed 4))\<rparr>\<rparr>)\<rparr>)
      else if startsWith trimmed (js ''BRF:'') then
        (case currentRecord st of
           None \<Rightarrow> st
         | Some r \<Rightarrow> st\<lparr>currentRecord :=
             Some (r\<lparr>branches := (branches r)\<lparr>found := parseInt (Some (substring trimmed 4))\<rparr>\<rparr>)\<rparr>)
      else if startsWith trimmed (js ''BRH:'') then
        (case currentRecord st of
           None \<Rightarrow> st
         | Some r \<Rightarrow> st\<lparr>currentRecord :=
             Some (r\<lparr>branches := (branches r)\<lparr>hit := parseInt (Some (substring trimmed 4))\<rparr>\<rparr>)\<rparr>)
      else if trimmed = js ''end_of_record'' then
        (case currentRecord st of
           None \<Rightarrow> st\<lparr>currentRecord := None\<rparr>
         | Some r \<Rightarrow>
             (if sourceFile r \<noteq> [] then st\<lparr>records := records st @ [r], currentRecord := None\<rparr>
              else st\<lparr>currentRecord := None\<rparr>))
      else st)"

definition parseLines :: "jsstring list \<Rightarrow> pstate" where
  "parseLines ls = foldl parseLine \<lparr>records = [], currentRecord = None\<rparr> ls"

definition parseLcovData :: "jsstring \<Rightarrow> LcovRecord list" where
  "parseLcovData lcovContent = records (parseLines (js_split newline lcovContent))"

section \<open>The aggregator\<close>

record CoverageMetric =
  total :: jsnum
  covered :: jsnum
  skipped :: jsnum
  pct :: jsnum

record CoverageReport =
  lines :: CoverageMetric
  statements :: CoverageMetric
  functions' :: CoverageMetric
  branches :: CoverageMetric

text \<open>The eight counters of the loop of \<^verbatim>\<open>lcovToCoverageReport\<close>.\<close>

record Counters =
  totalLines :: jsnum
  coveredLines :: jsnum
  totalFunctions :: jsnum
  coveredFunctions :: jsnum
  totalBranches :: jsnum
  coveredBranches :: jsnum
  totalStatements :: jsnum
  coveredStatements :: jsnum

definition hitLines :: "LineData list \<Rightarrow> LineData list" where
  "hitLines ls = filter (\<lambda>l. js_gt (LineData.hit l) (Num 0)) ls"

definition addRecord :: "Counters \<Rightarrow> LcovRecord \<Rightarrow> Counters" where
  "addRecord c record =
     \<lparr>totalLines = js_add (totalLines c) (Num (of_nat (length (LcovRecord.lines record)))),
      coveredLines =
        js_add (coveredLines c) (Num (of_nat (length (hitLines (LcovRecord.lines record))))),
      totalFunctions = js_add (totalFunctions c) (found (LcovRecord.functions' record)),
      coveredFunctions = js_add (coveredFunctions c) (Counts.hit (LcovRecord.functions' record)),
      totalBranches = js_add (totalBranches c) (found (LcovRecord.branches record)),
      coveredBranches = js_add (coveredBranches c) (Counts.hit (LcovRecord.branches record)),
      totalStatements =
        js_add (totalStatements c) (Num (of_nat (length (LcovRecord.lines record)))),
      coveredStatements =
        js_add (coveredStatements c) (Num (of_nat (length (hitLines (LcovRecord.lines record)))))\<rparr>"

definition zeroCounters :: Counters where
  "zeroCounters =
     \<lparr>totalLines = Num 0, coveredLines = Num 0, totalFunctions = Num 0,
      coveredFunctions = Num 0, totalBranches = Num 0, coveredBranches = Num 0,
      totalStatements = Num 0, coveredStatements = Num 0\<rparr>"

text \<open>
  \<^verbatim>\<open>t > 0 ? Math.round((c / t) * 100 * 100) / 100 : 0\<close>, with \<open>t\<close> the total and \<open>c\<close>
  the covered count.
\<close>

definition percentage :: "jsnum \<Rightarrow> jsnum \<Rightarrow> jsnum" where
  "percentage c t =
     (if js_gt t (Num 0)
      then js_div (Math_round (js_mul (js_mul (js_div c t) (Num 100)) (Num 100))) (Num 100)
      else Num 0)"

definition metric :: "jsnum \<Rightarrow> jsnum \<Rightarrow> CoverageMetric" where
  "metric t c = \<lparr>total = t, covered = c, skipped = Num 0, pct = percentage c t\<rparr>"

definition lcovToCoverageReport :: "LcovRecord list \<Rightarrow> CoverageReport" where
  "lcovToCoverageReport rs =
     (let c = foldl addRecord zeroCounters rs
      in \<lparr>lines = metric (totalLines c) (coveredLines c),
          statements = metric (totalStatements c) (coveredStatements c),
          functions' = metric (totalFunctions c) (coveredFunctions c),
          branches = metric (totalBranches c) (coveredBranches c)\<rparr>)"

section \<open>The summary builder\<close>

text \<open>
  A JavaScript object with string keys is an association list in the order in which the
  keys were created: writing an existing key replaces its value in place, writing a new
  key appends it. (The order in which JavaScript enumerates keys that look like array
  indices, and the key \<^verbatim>\<open>__proto__\<close>, are outside this model.)
\<close>

type_synonym 'v object = "(jsstring \<times> 'v) list"

fun put :: "'v object \<Rightarrow> jsstring \<Rightarrow> 'v \<Rightarrow> 'v object" where
  "put [] k v = [(k, v)]"
| "put ((k', v') # kvs) k v = (if k' = k then (k, v) # kvs else (k', v') # put kvs k v)"

definition get :: "'v object \<Rightarrow> jsstring \<Rightarrow> 'v option" where
  "get obj k = map_of obj k"

definition keys :: "'v object \<Rightarrow> jsstring list" where
  "keys obj = map fst obj"

type_synonym JsonSummary = "CoverageReport object"

definition lcovToJsonSummary :: "LcovRecord list \<Rightarrow> JsonSummary" where
  "lcovToJsonSummary rs =
     foldl (\<lambda>summary record. put summary (sourceFile record) (lcovToCoverageReport [record]))
       [(js ''total'', lcovToCoverageReport rs)] rs"

section \<open>The final-map builder\<close>

record Position =
  line :: jsnum
  column :: jsnum

record Range =
  start :: Position
  end' :: Position

record FileCoverageReport =
  path :: jsstring
  all' :: bool
  statementMap :: "Range object"
  s :: "jsnum object"

type_synonym JsonFinal = "FileCoverageReport object"

text \<open>\<^verbatim>\<open>String(index)\<close> for an array index: its decimal digits.\<close>

fun String :: "nat \<Rightarrow> jsstring" where
  "String n = (if n < 10 then [of_nat (48 + n)]
               else String (n div 10) @ [of_nat (48 + n mod 10)])"

text \<open>
  The callback of \<^verbatim>\<open>record.lines.forEach\<close>, on the pair of objects it fills, and the body
  of the loop over the records.
\<close>

definition addStatement ::
  "Range object \<times> jsnum object \<Rightarrow> LineData \<times> nat \<Rightarrow> Range object \<times> jsnum object" where
  "addStatement maps li =
     (let stmtId = String (snd li); ln = LineData.line (fst li)
      in (put (fst maps) stmtId
            \<lparr>start = \<lparr>line = ln, column = Num 0\<rparr>, end' = \<lparr>line = ln, column = Num 100\<rparr>\<rparr>,
          put (snd maps) stmtId (LineData.hit (fst li))))"

definition fileCoverage :: "LcovRecord \<Rightarrow> FileCoverageReport" where
  "fileCoverage record =
     (let maps = foldl addStatement ([], [])
                   (zip (LcovRecord.lines record) [0 ..< length (LcovRecord.lines record)])
      in \<lparr>path = sourceFile record, all' = False, statementMap = fst maps, s = snd maps\<rparr>)"

definition lcovToJsonFinal :: "LcovRecord list \<Rightarrow> JsonFinal" where
  "lcovToJsonFinal rs =
     foldl (\<lambda>final record. put final (sourceFile record) (fileCoverage record)) [] rs"

section \<open>The report loader\<close>

text \<open>
  The two entry points read the file through Node: \<^verbatim>\<open>path.resolve(process.cwd(), lcovPath)\<close>
  and \<^verbatim>\<open>readFile(resolvedPath, 'utf8')\<close>. Both are parameters here, and either may throw.
  A thrown value is an \<^verbatim>\<open>Error\<close> with its stack, or some other value; the handlers log
  the stack of the former and the empty string for the latter. A log entry keeps the
  function of \<^verbatim>\<open>@actions/core\<close> that was called and the two values its message is built
  from, the path and the stack. \<^verbatim>\<open>core.setFailed\<close> also marks the run as failed.
\<close>

datatype thrown = Error (stack: jsstring) | Other

datatype log_entry = SetFailed jsstring jsstring | Warning jsstring jsstring

record io =
  resolve :: "jsstring \<Rightarrow> thrown + jsstring"
  readFile :: "jsstring \<Rightarrow> thrown + jsstring"

definition stackOf :: "thrown \<Rightarrow> jsstring" where
  "stackOf err = (case err of Error st \<Rightarrow> st | Other \<Rightarrow> [])"

text \<open>The body of both \<^verbatim>\<open>try\<close> blocks up to the parsed records.\<close>

definition readRecords :: "io \<Rightarrow> jsstring \<Rightarrow> thrown + LcovRecord list" where
  "readRecords env lcovPath =
     (case resolve env lcovPath of
        Inl err \<Rightarrow> Inl err
      | Inr resolvedPath \<Rightarrow>
          (case readFile env resolvedPath of
             Inl err \<Rightarrow> Inl err
           | Inr lcovContent \<Rightarrow> Inr (parseLcovData lcovContent)))"

text \<open>Each entry point returns what it logged and its result, \<open>Inl\<close> for a rethrown value.\<close>

definition parseBunLcovSummary :: "io \<Rightarrow> jsstring \<Rightarrow> log_entry list \<times> (thrown + JsonSummary)" where
  "parseBunLcovSummary env lcovPath =
     (case readRecords env lcovPath of
        Inr rs \<Rightarrow> ([], Inr (lcovToJsonSummary rs))
      | Inl err \<Rightarrow> ([SetFailed lcovPath (stackOf err)], Inl err))"

definition parseBunLcovFinal :: "io \<Rightarrow> jsstring \<Rightarrow> log_entry list \<times> (thrown + JsonFinal)" where
  "parseBunLcovFinal env lcovPath =
     (case readRecords env lcovPath of
        Inr rs \<Rightarrow> ([], Inr (lcovToJsonFinal rs))
      | Inl err \<Rightarrow> ([Warning lcovPath (stackOf err)], Inr []))"

section \<open>Vocabulary of the properties\<close>

text \<open>
  An input text is described by its lines: \<open>js_join\<close> puts a line feed between them
  (\<^verbatim>\<open>lines.join("\n")\<close>), and a line holds no line feed. A line is classified the way the
  parser does it, on its trimmed form.
\<close>

fun js_join :: "jsstring list \<Rightarrow> jsstring" where
  "js_join [] = []"
| "js_join [l] = l"
| "js_join (l # l' # ls) = l @ newline # js_join (l' # ls)"

definition isLine :: "jsstring \<Rightarrow> bool" where
  "isLine l \<longleftrightarrow> newline \<notin> set l"

definition isSF :: "jsstring \<Rightarrow> bool" where
  "isSF l \<longleftrightarrow> startsWith (trim l) (js ''SF:'')"

definition isEnd :: "jsstring \<Rightarrow> bool" where
  "isEnd l \<longleftrightarrow> trim l = js ''end_of_record''"

definition isDA :: "jsstring \<Rightarrow> bool" where
  "isDA l \<longleftrightarrow> startsWith (trim l) (js ''DA:'')"

definition isCounter :: "jsstring \<Rightarrow> bool" where
  "isCounter l \<longleftrightarrow> startsWith (trim l) (js ''FNF:'') \<or> startsWith (trim l) (js ''FNH:'')
     \<or> startsWith (trim l) (js ''BRF:'') \<or> startsWith (trim l) (js ''BRH:'')"

definition dataOf :: "jsstring \<Rightarrow> LineData" where
  "dataOf l = (let parts = js_split comma (substring (trim l) 3)
               in \<lparr>LineData.line = parseInt (Some (hd parts)),
                   LineData.hit = parseInt (if 1 < length parts then Some (parts ! 1) else None)\<rparr>)"

definition runLines :: "pstate \<Rightarrow> jsstring list \<Rightarrow> pstate" where
  "runLines st ls = foldl parseLine st ls"

text \<open>
  A well-formed block: lines that open nothing, the \<^verbatim>\<open>SF:\<close> line with a non-empty path,
  the lines of the record (none of them an \<^verbatim>\<open>SF:\<close> or an \<^verbatim>\<open>end_of_record\<close> line), and the
  \<^verbatim>\<open>end_of_record\<close> line.
\<close>

record block =
  leading :: "jsstring list"
  sfLine :: jsstring
  body :: "jsstring list"
  endLine :: jsstring

definition blockLines :: "block \<Rightarrow> jsstring list" where
  "blockLines b = leading b @ [sfLine b] @ body b @ [endLine b]"

definition pathOf :: "jsstring \<Rightarrow> jsstring" where
  "pathOf l = substring (trim l) 3"

definition wellFormed :: "block \<Rightarrow> bool" where
  "wellFormed b \<longleftrightarrow>
     (\<forall>l\<in>set (leading b). \<not> isSF l) \<and> isSF (sfLine b) \<and> pathOf (sfLine b) \<noteq> [] \<and>
     (\<forall>l\<in>set (body b). \<not> isSF l \<and> \<not> isEnd l) \<and> isEnd (endLine b)"

definition dataLines :: "jsstring list \<Rightarrow> LineData list" where
  "dataLines ls = map dataOf (filter isDA ls)"

text \<open>
  A line the parser ignores: it trims to nothing, or it is none of the seven directives.
\<close>

definition isIgnored :: "jsstring \<Rightarrow> bool" where
  "isIgnored l \<longleftrightarrow> trim l = [] \<or>
     (\<not> isSF l \<and> \<not> isDA l \<and> \<not> isCounter l \<and> \<not> isEnd l)"

text \<open>
  The paths of the \<^verbatim>\<open>SF:\<close> lines among some lines, and the parser states whose records
  and current record all carry one of the paths \<open>S\<close>.
\<close>

definition sourcesOf :: "jsstring list \<Rightarrow> jsstring set" where
  "sourcesOf ls = pathOf ` {l \<in> set ls. isSF l}"

definition sourced :: "jsstring set \<Rightarrow> pstate \<Rightarrow> bool" where
  "sourced S st \<longleftrightarrow>
     (\<forall>r\<in>set (records st). sourceFile r \<noteq> [] \<and> sourceFile r \<in> S) \<and>
     (\<forall>r. currentRecord st = Some r \<longrightarrow> sourceFile r \<in> S)"



text \<open>
  The words of the percentage rule: \<open>roundHalfUp2 v\<close> is \<open>v\<close> rounded to two decimal
  places, a half going up; \<open>halfway v\<close> says that \<open>v\<close> lies exactly between two integers;
  \<open>metricsOf\<close> lists the four metrics of a bundle.
\<close>

definition roundHalfUp2 :: "rat \<Rightarrow> rat" where
  "roundHalfUp2 v = of_int \<lfloor>v * 100 + 1 / 2\<rfloor> / 100"

definition halfway :: "rat \<Rightarrow> bool" where
  "halfway v \<longleftrightarrow> v + 1 / 2 = of_int \<lfloor>v + 1 / 2\<rfloor>"


definition metricsOf :: "CoverageReport \<Rightarrow> CoverageMetric list" where
  "metricsOf report =
     [CoverageReport.lines report, statements report, CoverageReport.functions' report,
      CoverageReport.branches report]"

text \<open>The elements of a list in the order of their first occurrence.\<close>

definition firstOccurrences :: "'a list \<Rightarrow> 'a list" where
  "firstOccurrences xs = rev (remdups (rev xs))"

section \<open>Lines and the parser's steps\<close>

lemma splitFrom_no_sep: "sep \<notin> set l \<Longrightarrow> splitFrom sep p l = [p @ l]"
  by (induction l arbitrary: p) auto

lemma splitFrom_sep:
  "sep \<notin> set l \<Longrightarrow> splitFrom sep p (l @ sep # rest) = (p @ l) # splitFrom sep [] rest"
  by (induction l arbitrary: p) auto

lemma js_split_join:
  "list_all isLine ls \<Longrightarrow> ls \<noteq> [] \<Longrightarrow> js_split newline (js_join ls) = ls"
proof (induction ls rule: js_join.induct)
  case 1
  then show ?case by simp
next
  case (2 l)
  then show ?case by (simp add: js_split_def isLine_def splitFrom_no_sep)
next
  case (3 l l' ls)
  then show ?case by (simp add: js_split_def isLine_def splitFrom_sep)
qed

lemma startsWith_nonempty: "startsWith t (js ''SF:'') \<Longrightarrow> t \<noteq> []"
  by (auto simp: startsWith_def js_def)

lemma end_not_directive:
  "\<not> startsWith (js ''end_of_record'') (js ''SF:'')"
  "\<not> startsWith (js ''end_of_record'') (js ''DA:'')"
  "\<not> startsWith (js ''end_of_record'') (js ''FNF:'')"
  "\<not> startsWith (js ''end_of_record'') (js ''FNH:'')"
  "\<not> startsWith (js ''end_of_record'') (js ''BRF:'')"
  "\<not> startsWith (js ''end_of_record'') (js ''BRH:'')"
  "js ''end_of_record'' \<noteq> []"
  by (simp_all add: startsWith_def js_def)

lemma parseLine_blank: "trim l = [] \<Longrightarrow> parseLine st l = st"
  by (simp add: parseLine_def)

lemma parseLine_SF:
  "isSF l \<Longrightarrow> parseLine st l =
     st\<lparr>currentRecord := Some \<lparr>sourceFile = substring (trim l) 3, LcovRecord.lines = [],
           LcovRecord.functions' = \<lparr>found = Num 0, hit = Num 0\<rparr>,
           LcovRecord.branches = \<lparr>found = Num 0, hit = Num 0\<rparr>\<rparr>\<rparr>"
  using startsWith_nonempty[of "trim l"] by (simp add: parseLine_def isSF_def Let_def)

lemma parseLine_end:
  "isEnd l \<Longrightarrow> parseLine st l =
     (case currentRecord st of
        None \<Rightarrow> st\<lparr>currentRecord := None\<rparr>
      | Some r \<Rightarrow> if sourceFile r \<noteq> [] then st\<lparr>records := records st @ [r], currentRecord := None\<rparr>
                  else st\<lparr>currentRecord := None\<rparr>)"
  by (simp add: parseLine_def isEnd_def end_not_directive)

lemma parseLine_closed:
  "\<not> isSF l \<Longrightarrow> currentRecord st = None \<Longrightarrow> parseLine st l = st"
  by (simp add: parseLine_def isSF_def Let_def)

lemma parseLine_records:
  "\<not> isEnd l \<Longrightarrow> records (parseLine st l) = records st"
  by (simp add: parseLine_def isEnd_def Let_def split: option.splits)

lemma parseLine_open:
  "\<not> isSF l \<Longrightarrow> \<not> isEnd l \<Longrightarrow> currentRecord st = Some r \<Longrightarrow>
   \<exists>r'. currentRecord (parseLine st l) = Some r' \<and> sourceFile r' = sourceFile r \<and>
        LcovRecord.lines r' = LcovRecord.lines r @ map dataOf (filter isDA [l])"
  by (simp add: parseLine_def isSF_def isEnd_def isDA_def dataOf_def Let_def startsWith_def js_def)

lemma runLines_simps:
  "runLines st [] = st"
  "runLines st (l # ls) = runLines (parseLine st l) ls"
  "runLines st (ls @ ls') = runLines (runLines st ls) ls'"
  by (simp_all add: runLines_def)

lemma parseLcovData_join:
  assumes "list_all isLine ls"
  shows "parseLcovData (js_join ls) = records (runLines \<lparr>records = [], currentRecord = None\<rparr> ls)"
proof (cases "ls = []")
  case True
  then show ?thesis
    by (simp add: parseLcovData_def parseLines_def js_split_def runLines_def parseLine_blank trim_def)
next
  case False
  with assms show ?thesis
    by (simp add: parseLcovData_def parseLines_def js_split_join runLines_def)
qed

lemma runLines_records:
  "\<forall>l\<in>set ls. \<not> isEnd l \<Longrightarrow> records (runLines st ls) = records st"
  by (induction ls arbitrary: st) (simp_all add: runLines_simps parseLine_records)

lemma runLines_closed:
  "\<forall>l\<in>set ls. \<not> isSF l \<Longrightarrow> currentRecord st = None \<Longrightarrow> runLines st ls = st"
  by (induction ls arbitrary: st) (simp_all add: runLines_simps parseLine_closed)

lemma runLines_open:
  "\<forall>l\<in>set ls. \<not> isSF l \<and> \<not> isEnd l \<Longrightarrow> currentRecord st = Some r \<Longrightarrow>
   \<exists>r'. currentRecord (runLines st ls) = Some r' \<and> sourceFile r' = sourceFile r \<and>
        LcovRecord.lines r' = LcovRecord.lines r @ map dataOf (filter isDA ls)"
proof (induction ls arbitrary: st r)
  case Nil
  then show ?case by (simp add: runLines_simps)
next
  case (Cons l ls)
  then obtain r1 where r1: "currentRecord (parseLine st l) = Some r1" "sourceFile r1 = sourceFile r"
      "LcovRecord.lines r1 = LcovRecord.lines r @ map dataOf (filter isDA [l])"
    using parseLine_open[of l st r] by auto
  from Cons.prems have "\<forall>l\<in>set ls. \<not> isSF l \<and> \<not> isEnd l" by simp
  from Cons.IH[OF this r1(1)] r1(2,3) show ?case
    by (auto simp: runLines_simps)
qed


lemma runLines_block:
  assumes wf: "wellFormed b" and closed: "currentRecord st = None"
  shows "\<exists>r. records (runLines st (blockLines b)) = records st @ [r] \<and>
             currentRecord (runLines st (blockLines b)) = None \<and>
             sourceFile r = pathOf (sfLine b) \<and>
             LcovRecord.lines r = dataLines (body b)"
proof -
  define st1 where "st1 = parseLine st (sfLine b)"
  from wf have pre: "runLines st (leading b) = st"
    using closed by (simp add: wellFormed_def runLines_closed)
  from wf have sf: "isSF (sfLine b)" by (simp add: wellFormed_def)
  have cur1: "currentRecord st1 =
      Some \<lparr>sourceFile = pathOf (sfLine b), LcovRecord.lines = [],
            LcovRecord.functions' = \<lparr>found = Num 0, hit = Num 0\<rparr>,
            LcovRecord.branches = \<lparr>found = Num 0, hit = Num 0\<rparr>\<rparr>"
    and rec1: "records st1 = records st"
    by (simp_all add: st1_def parseLine_SF[OF sf] pathOf_def)
  from wf have bd: "\<forall>l\<in>set (body b). \<not> isSF l \<and> \<not> isEnd l" by (simp add: wellFormed_def)
  from runLines_open[OF bd cur1] obtain r where r:
    "currentRecord (runLines st1 (body b)) = Some r" "sourceFile r = pathOf (sfLine b)"
    "LcovRecord.lines r = dataLines (body b)"
    by (auto simp: dataLines_def)
  from bd have rec2: "records (runLines st1 (body b)) = records st"
    using rec1 by (simp add: runLines_records)
  from wf have en: "isEnd (endLine b)" and ne: "pathOf (sfLine b) \<noteq> []"
    by (simp_all add: wellFormed_def)
  have run: "runLines st (blockLines b) = parseLine (runLines st1 (body b)) (endLine b)"
    by (simp add: blockLines_def runLines_simps pre st1_def)
  show ?thesis
    using r rec2 ne by (auto simp: run parseLine_end[OF en])
qed

lemma runLines_blocks:
  "\<forall>b\<in>set bs. wellFormed b \<Longrightarrow> currentRecord st = None \<Longrightarrow>
   currentRecord (runLines st (concat (map blockLines bs))) = None \<and>
   map sourceFile (records (runLines st (concat (map blockLines bs)))) =
     map sourceFile (records st) @ map (\<lambda>b. pathOf (sfLine b)) bs \<and>
   map LcovRecord.lines (records (runLines st (concat (map blockLines bs)))) =
     map LcovRecord.lines (records st) @ map (\<lambda>b. dataLines (body b)) bs"
proof (induction bs arbitrary: st)
  case Nil
  then show ?case by (simp add: runLines_simps)
next
  case (Cons b bs)
  from Cons.prems have wf: "wellFormed b" and rest: "\<forall>b\<in>set bs. wellFormed b" by simp_all
  from runLines_block[OF wf Cons.prems(2)] obtain r where r:
    "records (runLines st (blockLines b)) = records st @ [r]"
    "currentRecord (runLines st (blockLines b)) = None"
    "sourceFile r = pathOf (sfLine b)" "LcovRecord.lines r = dataLines (body b)"
    by blast
  from Cons.IH[OF rest r(2)] r(1,3,4) show ?case
    by (simp add: runLines_simps)
qed

lemma parseLine_ignored: "isIgnored l \<Longrightarrow> parseLine st l = st"
  by (auto simp: isIgnored_def parseLine_def isSF_def isDA_def isCounter_def isEnd_def Let_def)

lemma startsWith_hd: "startsWith t p \<Longrightarrow> p \<noteq> [] \<Longrightarrow> hd t = hd p"
  by (cases t; cases p) (auto simp: startsWith_def)

lemma SF_not_other:
  assumes "startsWith t (js ''SF:'')"
  shows "\<not> startsWith t (js ''DA:'')" "\<not> startsWith t (js ''FNF:'')"
    "\<not> startsWith t (js ''FNH:'')" "\<not> startsWith t (js ''BRF:'')"
    "\<not> startsWith t (js ''BRH:'')"
  using startsWith_hd[OF assms] startsWith_hd[of t "js ''DA:''"] startsWith_hd[of t "js ''FNF:''"]
    startsWith_hd[of t "js ''FNH:''"] startsWith_hd[of t "js ''BRF:''"]
    startsWith_hd[of t "js ''BRH:''"]
  by (auto simp: js_def)

lemma parseLine_no_record:
  "isDA l \<or> isCounter l \<Longrightarrow> currentRecord st = None \<Longrightarrow> parseLine st l = st"
  by (auto simp: parseLine_def isDA_def isCounter_def Let_def dest: SF_not_other)

lemma parseLine_sourced:
  assumes "sourced S st" and "isSF l \<longrightarrow> pathOf l \<in> S"
  shows "sourced S (parseLine st l)"
proof (cases "isSF l")
  case True
  with assms show ?thesis
    by (simp add: parseLine_SF sourced_def pathOf_def)
next
  case False
  note nsf = this
  show ?thesis
  proof (cases "isEnd l")
    case True
    with assms(1) show ?thesis
      by (auto simp: parseLine_end sourced_def split: option.splits)
  next
    case False
    show ?thesis
    proof (cases "currentRecord st")
      case None
      with nsf assms(1) show ?thesis by (simp add: parseLine_closed)
    next
      case (Some r)
      from parseLine_open[OF nsf False Some] parseLine_records[OF False, of st] assms(1) Some
      show ?thesis by (auto simp: sourced_def)
    qed
  qed
qed

lemma runLines_sourced:
  "sourced S st \<Longrightarrow> \<forall>l\<in>set ls. isSF l \<longrightarrow> pathOf l \<in> S \<Longrightarrow> sourced S (runLines st ls)"
  by (induction ls arbitrary: st) (simp_all add: runLines_simps parseLine_sourced)

lemma parseLine_count:
  "length (records (parseLine st l)) \<le> length (records st) + (if isEnd l then 1 else 0)"
  by (cases "isEnd l") (auto simp: parseLine_end parseLine_records split: option.splits)

lemma runLines_count:
  "length (records (runLines st ls)) \<le> length (records st) + length (filter isEnd ls)"
proof (induction ls arbitrary: st)
  case Nil
  then show ?case by (simp add: runLines_simps)
next
  case (Cons l ls)
  from Cons.IH[of "parseLine st l"] parseLine_count[of st l] show ?case
    by (simp add: runLines_simps split: if_splits)
qed

lemma runLines_abandon:
  assumes "\<forall>l\<in>set ls. \<not> isEnd l" and "isSF l'"
  shows "runLines st (ls @ [l']) = runLines st [l']"
proof -
  have "records (runLines st ls) = records st"
    using assms(1) by (rule runLines_records)
  then show ?thesis
    by (simp add: runLines_simps parseLine_SF[OF assms(2)])
qed

section \<open>Objects and statement ids\<close>

declare String.simps [simp del]

lemma get_put: "get (put obj k v) k' = (if k' = k then Some v else get obj k')"
  by (induction obj) (auto simp: get_def)

lemma keys_put:
  "keys (put obj k v) = (if k \<in> set (keys obj) then keys obj else keys obj @ [k])"
  by (induction obj) (force simp: keys_def)+










section \<open>Sums of the aggregator and entries of the summary\<close>

lemma js_add_zero: "js_add (Num 0) x = x"
  by (cases x) simp_all

lemma foldl_addRecord:
  "foldl addRecord c rs =
     \<lparr>totalLines = foldl js_add (totalLines c) (map (\<lambda>r. Num (of_nat (length (LcovRecord.lines r)))) rs),
      coveredLines = foldl js_add (coveredLines c)
        (map (\<lambda>r. Num (of_nat (length (hitLines (LcovRecord.lines r))))) rs),
      totalFunctions = foldl js_add (totalFunctions c) (map (\<lambda>r. found (LcovRecord.functions' r)) rs),
      coveredFunctions = foldl js_add (coveredFunctions c)
        (map (\<lambda>r. Counts.hit (LcovRecord.functions' r)) rs),
      totalBranches = foldl js_add (totalBranches c) (map (\<lambda>r. found (LcovRecord.branches r)) rs),
      coveredBranches = foldl js_add (coveredBranches c)
        (map (\<lambda>r. Counts.hit (LcovRecord.branches r)) rs),
      totalStatements = foldl js_add (totalStatements c)
        (map (\<lambda>r. Num (of_nat (length (LcovRecord.lines r)))) rs),
      coveredStatements = foldl js_add (coveredStatements c)
        (map (\<lambda>r. Num (of_nat (length (hitLines (LcovRecord.lines r))))) rs)\<rparr>"
  by (induction rs arbitrary: c) (simp_all add: addRecord_def)

lemma report_single:
  "CoverageMetric.total (CoverageReport.lines (lcovToCoverageReport [r])) = Num (of_nat (length (LcovRecord.lines r)))"
  "covered (CoverageReport.lines (lcovToCoverageReport [r])) = Num (of_nat (length (hitLines (LcovRecord.lines r))))"
  "CoverageMetric.total (statements (lcovToCoverageReport [r])) = Num (of_nat (length (LcovRecord.lines r)))"
  "covered (statements (lcovToCoverageReport [r])) = Num (of_nat (length (hitLines (LcovRecord.lines r))))"
  "CoverageMetric.total (CoverageReport.functions' (lcovToCoverageReport [r])) = found (LcovRecord.functions' r)"
  "covered (CoverageReport.functions' (lcovToCoverageReport [r])) = Counts.hit (LcovRecord.functions' r)"
  "CoverageMetric.total (CoverageReport.branches (lcovToCoverageReport [r])) = found (LcovRecord.branches r)"
  "covered (CoverageReport.branches (lcovToCoverageReport [r])) = Counts.hit (LcovRecord.branches r)"
  by (simp_all add: lcovToCoverageReport_def Let_def addRecord_def zeroCounters_def metric_def js_add_zero)

lemma aggregator_additive:
  "CoverageMetric.total (CoverageReport.lines (lcovToCoverageReport rs)) =
     foldl js_add (Num 0) (map (\<lambda>r. CoverageMetric.total (CoverageReport.lines (lcovToCoverageReport [r]))) rs)"
  "covered (CoverageReport.lines (lcovToCoverageReport rs)) =
     foldl js_add (Num 0) (map (\<lambda>r. covered (CoverageReport.lines (lcovToCoverageReport [r]))) rs)"
  "CoverageMetric.total (statements (lcovToCoverageReport rs)) =
     foldl js_add (Num 0) (map (\<lambda>r. CoverageMetric.total (statements (lcovToCoverageReport [r]))) rs)"
  "covered (statements (lcovToCoverageReport rs)) =
     foldl js_add (Num 0) (map (\<lambda>r. covered (statements (lcovToCoverageReport [r]))) rs)"
  "CoverageMetric.total (CoverageReport.functions' (lcovToCoverageReport rs)) =
     foldl js_add (Num 0) (map (\<lambda>r. CoverageMetric.total (CoverageReport.functions' (lcovToCoverageReport [r]))) rs)"
  "covered (CoverageReport.functions' (lcovToCoverageReport rs)) =
     foldl js_add (Num 0) (map (\<lambda>r. covered (CoverageReport.functions' (lcovToCoverageReport [r]))) rs)"
  "CoverageMetric.total (CoverageReport.branches (lcovToCoverageReport rs)) =
     foldl js_add (Num 0) (map (\<lambda>r. CoverageMetric.total (CoverageReport.branches (lcovToCoverageReport [r]))) rs)"
  "covered (CoverageReport.branches (lcovToCoverageReport rs)) =
     foldl js_add (Num 0) (map (\<lambda>r. covered (CoverageReport.branches (lcovToCoverageReport [r]))) rs)"
  unfolding report_single
  by (simp_all add: lcovToCoverageReport_def Let_def foldl_addRecord zeroCounters_def metric_def)

lemma foldl_js_add_nat:
  "foldl js_add (Num x) (map (\<lambda>r. Num (of_nat (f r))) rs) = Num (x + of_nat (sum_list (map f rs)))"
  by (induction rs arbitrary: x) (simp_all add: add.assoc)

lemma lines_total_sum:
  "CoverageMetric.total (CoverageReport.lines (lcovToCoverageReport rs)) =
     Num (of_nat (\<Sum>r\<leftarrow>rs. length (LcovRecord.lines r)))"
  using foldl_js_add_nat[of 0 "\<lambda>r. length (LcovRecord.lines r)" rs]
  by (simp add: lcovToCoverageReport_def Let_def foldl_addRecord zeroCounters_def metric_def)

lemma firstOccurrences_snoc:
  "firstOccurrences (xs @ [x]) = (if x \<in> set xs then firstOccurrences xs else firstOccurrences xs @ [x])"
  by (simp add: firstOccurrences_def)

lemma set_firstOccurrences: "set (firstOccurrences xs) = set xs"
  by (simp add: firstOccurrences_def)

lemma lcovToJsonSummary_snoc_aux:
  "foldl (\<lambda>summary record. put summary (sourceFile record) (lcovToCoverageReport [record])) obj (rs @ [r]) =
   put (foldl (\<lambda>summary record. put summary (sourceFile record) (lcovToCoverageReport [record])) obj rs)
     (sourceFile r) (lcovToCoverageReport [r])"
  by simp

lemma summary_fold_keys:
  "keys (foldl (\<lambda>summary record. put summary (sourceFile record) (lcovToCoverageReport [record])) [(k, v)] rs) =
   firstOccurrences (k # map sourceFile rs)"
proof (induction rs rule: rev_induct)
  case Nil
  then show ?case by (simp add: keys_def firstOccurrences_def)
next
  case (snoc r rs)
  have "firstOccurrences (k # map sourceFile (rs @ [r])) =
      (if sourceFile r \<in> set (k # map sourceFile rs) then firstOccurrences (k # map sourceFile rs)
       else firstOccurrences (k # map sourceFile rs) @ [sourceFile r])"
    using firstOccurrences_snoc[of "k # map sourceFile rs" "sourceFile r"] by simp
  with snoc show ?case
    by (simp add: keys_put set_firstOccurrences)
qed

lemma summary_keys:
  "keys (lcovToJsonSummary rs) = firstOccurrences (js ''total'' # map sourceFile rs)"
  by (simp add: lcovToJsonSummary_def summary_fold_keys)

lemma summary_fold_get:
  "get (foldl (\<lambda>summary record. put summary (sourceFile record) (lcovToCoverageReport [record])) obj rs) k =
   (if filter (\<lambda>r. sourceFile r = k) rs = [] then get obj k
    else Some (lcovToCoverageReport [last (filter (\<lambda>r. sourceFile r = k) rs)]))"
  by (induction rs rule: rev_induct) (auto simp: get_put)

lemma summary_get:
  "get (lcovToJsonSummary rs) k =
   (if filter (\<lambda>r. sourceFile r = k) rs = []
    then (if k = js ''total'' then Some (lcovToCoverageReport rs) else None)
    else Some (lcovToCoverageReport [last (filter (\<lambda>r. sourceFile r = k) rs)]))"
  by (simp only: lcovToJsonSummary_def summary_fold_get) (simp add: get_def)

lemma summary_total:
  assumes "js ''total'' \<notin> sourceFile ` set rs"
  shows "get (lcovToJsonSummary rs) (js ''total'') = Some (lcovToCoverageReport rs)"
proof -
  have "k \<notin> sourceFile ` set rs \<Longrightarrow> filter (\<lambda>r. sourceFile r = k) rs = []" for k
    by (induction rs) auto
  with assms show ?thesis
    by (simp add: summary_get)
qed

lemma summary_last_write_wins:
  assumes "\<forall>r'\<in>set later. sourceFile r' \<noteq> sourceFile r"
  shows "get (lcovToJsonSummary (earlier @ r # later)) (sourceFile r) = Some (lcovToCoverageReport [r])"
proof -
  from assms have "filter (\<lambda>r'. sourceFile r' = sourceFile r) later = []"
    by (simp add: filter_empty_conv)
  then have "filter (\<lambda>r'. sourceFile r' = sourceFile r) (earlier @ r # later) =
      filter (\<lambda>r'. sourceFile r' = sourceFile r) earlier @ [r]"
    by simp
  then show ?thesis
    by (simp add: summary_get)
qed

section \<open>Rounding to binary64\<close>

text \<open>
  A rounded result is within a \<open>2^-53\<close>-th of the exact one, so the product
  \<^verbatim>\<open>(c / t) * 100 * 100\<close> is within a \<open>2^-51\<close>-th of its exact value. For integers \<open>c\<close>
  (below \<open>2^36\<close>) and \<open>t\<close> the exact value is a multiple of \<open>1 / t\<close>, and unless it lies
  halfway between two integers the computed product rounds to the same integer.
\<close>

lemma roundEven_error: "\<bar>of_int (roundEven y) - y\<bar> \<le> 1 / 2"
proof -
  have "of_int \<lfloor>y\<rfloor> \<le> y" "y < of_int \<lfloor>y\<rfloor> + 1"
    by linarith+
  then show ?thesis
    by (auto simp: roundEven_def Let_def abs_le_iff)
qed

lemma ilog2_le:
  assumes "0 < x"
  shows "2 powi (ilog2 x) \<le> x"
proof -
  obtain p q where pq: "quotient_of x = (p, q)"
    by (cases "quotient_of x")
  then have q: "0 < q" and x: "x = of_int p / of_int q"
    using quotient_of_denom_pos[OF pq] quotient_of_div[OF pq] by simp_all
  with assms have p: "0 < p"
    by (simp add: zero_less_divide_iff)
  let ?d = "bitlen p - bitlen q"
  show ?thesis
  proof (cases "(2::rat) powi ?d \<le> x")
    case True
    then show ?thesis by (simp add: ilog2_def pq)
  next
    case False
    have bp: "1 \<le> bitlen p" and bq: "0 \<le> bitlen q"
      using p bitlen_bounds[OF p] bitlen_nonneg[of q] by (auto simp: bitlen_alt_def)
    have lo: "(2::rat) ^ nat (bitlen p - 1) \<le> of_int p"
      using bitlen_bounds[OF p] by (metis of_int_le_iff of_int_numeral of_int_power)
    have hi: "of_int q < (2::rat) ^ nat (bitlen q)"
      using bitlen_bounds[OF q] by (metis of_int_less_iff of_int_numeral of_int_power)
    have "(2::rat) powi (?d - 1) = 2 powi (bitlen p - 1) / 2 powi (bitlen q)"
      using power_int_diff[of "2::rat" "bitlen p - 1" "bitlen q"] by (simp add: algebra_simps)
    also have "\<dots> = 2 ^ nat (bitlen p - 1) / 2 ^ nat (bitlen q)"
      using bp bq by (simp add: power_int_def)
    also have "\<dots> \<le> of_int p / 2 ^ nat (bitlen q)"
      using lo by (simp add: divide_right_mono)
    also have "\<dots> \<le> of_int p / of_int q"
      using hi p q by (simp add: frac_le)
    also have "\<dots> = x"
      by (simp add: x)
    finally show ?thesis
      using False by (simp add: ilog2_def pq)
  qed
qed

lemma ilog2_gt:
  assumes "0 < x"
  shows "x < 2 powi (ilog2 x + 1)"
proof -
  obtain p q where pq: "quotient_of x = (p, q)"
    by (cases "quotient_of x")
  then have q: "0 < q" and x: "x = of_int p / of_int q"
    using quotient_of_denom_pos[OF pq] quotient_of_div[OF pq] by simp_all
  with assms have p: "0 < p"
    by (simp add: zero_less_divide_iff)
  let ?d = "bitlen p - bitlen q"
  show ?thesis
  proof (cases "(2::rat) powi ?d \<le> x")
    case False
    then have "x < 2 powi (?d - 1 + 1)"
      by simp
    with False show ?thesis
      by (simp add: ilog2_def pq)
  next
    case True
    have bp: "0 \<le> bitlen p" and bq: "1 \<le> bitlen q"
      using q bitlen_bounds[OF q] bitlen_nonneg[of p] by (auto simp: bitlen_alt_def)
    have hi: "of_int p < (2::rat) ^ nat (bitlen p)"
      using bitlen_bounds[OF p] by (metis of_int_less_iff of_int_numeral of_int_power)
    have lo: "(2::rat) ^ nat (bitlen q - 1) \<le> of_int q"
      using bitlen_bounds[OF q] by (metis of_int_le_iff of_int_numeral of_int_power)
    have "x = of_int p / of_int q"
      by (rule x)
    also have "\<dots> < 2 ^ nat (bitlen p) / of_int q"
      using hi q by (simp add: divide_strict_right_mono)
    also have "\<dots> \<le> 2 ^ nat (bitlen p) / 2 ^ nat (bitlen q - 1)"
      using lo by (simp add: frac_le)
    also have "\<dots> = 2 powi (bitlen p) / 2 powi (bitlen q - 1)"
      using bp bq by (simp add: power_int_def)
    also have "\<dots> = 2 powi (?d + 1)"
      using power_int_diff[of "2::rat" "bitlen p" "bitlen q - 1"] by (simp add: algebra_simps)
    finally show ?thesis
      using True by (simp add: ilog2_def pq)
  qed
qed

lemma fl_error: "\<bar>fl x - x\<bar> \<le> \<bar>x\<bar> / 2 ^ 53"
proof (cases "x = 0")
  case True
  then show ?thesis by (simp add: fl_def)
next
  case False
  define a where "a = \<bar>x\<bar>"
  define u where "u = (2::rat) powi (ilog2 a - 52)"
  define k where "k = roundEven (a / u)"
  have a: "0 < a" using False by (simp add: a_def)
  have u: "0 < u" by (simp add: u_def)
  have "u = 2 powi (ilog2 a) / 2 ^ 52"
    using power_int_diff[of "2::rat" "ilog2 a" 52] by (simp add: u_def)
  then have ua: "u \<le> a / 2 ^ 52"
    using ilog2_le[OF a] by (simp add: divide_right_mono)
  have flx: "fl x = sgn x * (of_int k * u)"
    using False by (simp add: fl_def Let_def a_def u_def k_def)
  have xs: "x = sgn x * a"
    by (simp add: a_def sgn_mult_abs)
  have "fl x - x = sgn x * (of_int k * u - a)"
    using flx xs by (metis right_diff_distrib)
  then have "\<bar>fl x - x\<bar> = \<bar>of_int k * u - a\<bar>"
    using False by (simp add: abs_mult abs_sgn_eq)
  also have "of_int k * u - a = (of_int k - a / u) * u"
    using u by (simp add: left_diff_distrib)
  also have "\<bar>\<dots>\<bar> = \<bar>of_int k - a / u\<bar> * u"
    using u by (simp add: abs_mult)
  also have "\<dots> \<le> 1 / 2 * u"
    using roundEven_error[of "a / u"] u by (simp add: k_def mult_right_mono)
  also have "\<dots> \<le> 1 / 2 * (a / 2 ^ 52)"
    using ua by simp
  also have "\<dots> = a / 2 ^ 53"
    by simp
  finally show ?thesis
    by (simp add: a_def)
qed


lemma fl_rel:
  assumes "\<bar>v - w\<bar> \<le> \<bar>w\<bar> * e"
  shows "\<bar>fl v - w\<bar> \<le> \<bar>w\<bar> * (e + (1 + e) / 2 ^ 53)"
proof -
  have "\<bar>v\<bar> \<le> \<bar>w\<bar> + \<bar>v - w\<bar>"
    by linarith
  with assms have "\<bar>v\<bar> \<le> \<bar>w\<bar> * (1 + e)"
    by (simp add: distrib_left)
  then have "\<bar>v\<bar> / 2 ^ 53 \<le> \<bar>w\<bar> * (1 + e) / 2 ^ 53"
    by (simp add: divide_right_mono)
  with fl_error[of v] have "\<bar>fl v - v\<bar> \<le> \<bar>w\<bar> * (1 + e) / 2 ^ 53"
    by linarith
  moreover have "\<bar>fl v - w\<bar> \<le> \<bar>fl v - v\<bar> + \<bar>v - w\<bar>"
    by linarith
  ultimately have "\<bar>fl v - w\<bar> \<le> \<bar>w\<bar> * (1 + e) / 2 ^ 53 + \<bar>w\<bar> * e"
    using assms by linarith
  then show ?thesis
    by (simp add: distrib_left add.commute)
qed

lemma scale_rel:
  fixes v w e :: rat
  assumes "\<bar>v - w\<bar> \<le> \<bar>w\<bar> * e"
  shows "\<bar>v * 100 - w * 100\<bar> \<le> \<bar>w * 100\<bar> * e"
proof -
  have "v * 100 - w * 100 = (v - w) * 100"
    by (simp only: left_diff_distrib)
  then have "\<bar>v * 100 - w * 100\<bar> = \<bar>v - w\<bar> * 100"
    by (simp only: abs_mult abs_numeral)
  also have "\<dots> \<le> \<bar>w\<bar> * e * 100"
    using assms by (rule mult_right_mono) simp
  also have "\<dots> = \<bar>w * 100\<bar> * e"
    by (simp only: abs_mult abs_numeral mult.assoc mult.commute[of e])
  finally show ?thesis .
qed

lemma scaled_error:
  "\<bar>fl (fl (fl x * 100) * 100) - x * 100 * 100\<bar> \<le> \<bar>x * 100 * 100\<bar> / 2 ^ 51"
proof -
  define e1 :: rat where "e1 = 0 + (1 + 0) / 2 ^ 53"
  define e2 :: rat where "e2 = e1 + (1 + e1) / 2 ^ 53"
  define e3 :: rat where "e3 = e2 + (1 + e2) / 2 ^ 53"
  have "\<bar>x - x\<bar> \<le> \<bar>x\<bar> * 0"
    by simp
  then have "\<bar>fl x - x\<bar> \<le> \<bar>x\<bar> * e1"
    unfolding e1_def by (rule fl_rel)
  then have "\<bar>fl x * 100 - x * 100\<bar> \<le> \<bar>x * 100\<bar> * e1"
    by (rule scale_rel)
  then have "\<bar>fl (fl x * 100) - x * 100\<bar> \<le> \<bar>x * 100\<bar> * e2"
    unfolding e2_def by (rule fl_rel)
  then have "\<bar>fl (fl x * 100) * 100 - x * 100 * 100\<bar> \<le> \<bar>x * 100 * 100\<bar> * e2"
    by (rule scale_rel)
  then have "\<bar>fl (fl (fl x * 100) * 100) - x * 100 * 100\<bar> \<le> \<bar>x * 100 * 100\<bar> * e3"
    unfolding e3_def by (rule fl_rel)
  moreover have "e3 \<le> 1 / 2 ^ 51"
    by (simp add: e3_def e2_def e1_def)
  then have "\<bar>x * 100 * 100\<bar> * e3 \<le> \<bar>x * 100 * 100\<bar> * (1 / 2 ^ 51)"
    by (intro mult_left_mono) simp_all
  ultimately show ?thesis
    by simp
qed

lemma floor_stable:
  fixes n d :: int
  assumes d: "0 < d" and nh: "of_int n / of_int d \<noteq> (of_int \<lfloor>of_int n / of_int d :: rat\<rfloor> :: rat)"
    and close: "\<bar>z - (of_int n / of_int d)\<bar> < 1 / of_int d"
  shows "\<lfloor>z :: rat\<rfloor> = \<lfloor>of_int n / of_int d :: rat\<rfloor>"
proof -
  let ?w = "of_int n / of_int d :: rat"
  have fl: "\<lfloor>?w\<rfloor> = n div d"
    by (simp add: floor_divide_of_int_eq)
  have nd: "n = (n div d) * d + n mod d"
    by simp
  have w: "?w = of_int (n div d) + of_int (n mod d) / of_int d"
  proof -
    have "(of_int n :: rat) = of_int (n div d) * of_int d + of_int (n mod d)"
      by (metis nd of_int_add of_int_mult)
    then show ?thesis
      using d by (simp add: field_simps)
  qed
  have "n mod d \<noteq> 0"
    using nh w fl by auto
  moreover have "0 \<le> n mod d" "n mod d < d"
    using d by simp_all
  ultimately have m: "1 \<le> n mod d" "n mod d \<le> d - 1"
    by linarith+
  have lo: "1 / of_int d \<le> (of_int (n mod d) / of_int d :: rat)"
    using m(1) d by (simp add: divide_right_mono)
  have "(of_int (n mod d) :: rat) \<le> of_int d - 1"
    using m(2) by (metis of_int_1 of_int_diff of_int_le_iff)
  then have hi: "(of_int (n mod d) / of_int d :: rat) \<le> 1 - 1 / of_int d"
    using d by (simp add: field_simps)
  have "of_int (n div d) \<le> z" "z < of_int (n div d) + 1"
    using close w lo hi by (simp_all add: abs_less_iff)
  then have "\<lfloor>z\<rfloor> = n div d"
    by (simp add: floor_unique)
  with fl show ?thesis
    by simp
qed

lemma round_agrees:
  fixes c t :: int
  assumes t: "0 < t" and c: "\<bar>c\<bar> < 2 ^ 36"
    and nh: "\<not> halfway (of_int c / of_int t * 100 * 100)"
  shows "\<lfloor>fl (fl (fl (of_int c / of_int t) * 100) * 100) + 1 / 2\<rfloor> =
         \<lfloor>(of_int c / of_int t :: rat) * 100 * 100 + 1 / 2\<rfloor>"
proof -
  let ?X = "of_int c / of_int t * 100 * 100 :: rat"
  let ?z = "fl (fl (fl (of_int c / of_int t) * 100) * 100)"
  let ?n = "20000 * c + t" and ?d = "2 * t"
  have w: "?X + 1 / 2 = of_int ?n / of_int ?d"
    using t by (simp add: field_simps)
  have d: "0 < ?d" using t by simp
  have "\<bar>?z - ?X\<bar> \<le> \<bar>?X\<bar> / 2 ^ 51"
    by (rule scaled_error)
  also have "\<bar>?X\<bar> = of_int (10000 * \<bar>c\<bar>) / of_int t"
    using t by (simp add: abs_mult abs_divide)
  also have "of_int (10000 * \<bar>c\<bar>) / of_int t / 2 ^ 51 = (of_int (20000 * \<bar>c\<bar>) / 2 ^ 51) * (1 / of_int ?d :: rat)"
    using t by simp
  also have "\<dots> < 1 * (1 / of_int ?d)"
  proof (rule mult_strict_right_mono)
    have "20000 * \<bar>c\<bar> < 2 ^ 51"
      using c by simp
    then have "(of_int (20000 * \<bar>c\<bar>) :: rat) < 2 ^ 51"
      by (metis of_int_less_iff of_int_numeral of_int_power)
    then show "(of_int (20000 * \<bar>c\<bar>) / 2 ^ 51 :: rat) < 1"
      by simp
    show "0 < (1 / of_int ?d :: rat)"
      using t by simp
  qed
  finally have close: "\<bar>(?z + 1 / 2) - of_int ?n / of_int ?d\<bar> < 1 / of_int ?d"
    unfolding w[symmetric] by simp
  have "of_int ?n / of_int ?d \<noteq> (of_int \<lfloor>of_int ?n / of_int ?d :: rat\<rfloor> :: rat)"
    using nh unfolding halfway_def w .
  from floor_stable[OF d this close] show ?thesis
    unfolding w .
qed


lemma percentage_not_positive: "\<not> js_gt t (Num 0) \<Longrightarrow> percentage c t = Num 0"
  by (simp add: percentage_def)

lemma percentage_positive:
  "0 < t \<Longrightarrow> percentage (Num c) (Num t) =
     Num (fl (of_int \<lfloor>fl (fl (fl (c / t) * 100) * 100) + 1 / 2\<rfloor> / 100))"
  by (simp add: percentage_def)

lemma percentage_rounds:
  fixes c t :: int
  assumes "0 < t" and "\<bar>c\<bar> < 2 ^ 36" and "\<not> halfway (of_int c / of_int t * 100 * 100)"
  shows "percentage (Num (of_int c)) (Num (of_int t)) =
         Num (fl (roundHalfUp2 (of_int c / of_int t * 100)))"
proof -
  have "(0::rat) < of_int t"
    using assms(1) by simp
  then show ?thesis
    by (simp only: percentage_positive round_agrees[OF assms] roundHalfUp2_def)
qed

lemma metric_pct:
  "m \<in> set (metricsOf (lcovToCoverageReport rs)) \<Longrightarrow> pct m = percentage (covered m) (CoverageMetric.total m)"
  by (auto simp: metricsOf_def lcovToCoverageReport_def Let_def metric_def)

lemma seven_of_ten: "percentage (Num 7) (Num 10) = Num 70"
  by code_simp

section \<open>Claims\<close>

text \<open>
  C1. Every metric the aggregator produces has \<open>pct = 0\<close> when its total is not greater
  than zero: zero, negative or \<open>NaN\<close>. When the total \<open>t\<close> is a positive integer (below
  \<open>2^53\<close>, where the counts are exact), the covered count \<open>c\<close> is an integer of magnitude
  below \<open>2^36\<close> and \<open>c / t * 10000\<close> does not lie halfway between two integers, \<open>pct\<close> is
  the binary64 number nearest to \<open>(c / t) * 100\<close> rounded to two decimal places, a half
  going up. A record with 10 line entries of which 7 have a positive hit count has
  \<open>lines.pct = 70\<close>, and a record with no line entry has \<open>lines.pct = 0\<close>.
\<close>

theorem percentage_rule:
  assumes "m \<in> set (metricsOf (lcovToCoverageReport rs))"
  shows "(\<not> js_gt (CoverageMetric.total m) (Num 0) \<longrightarrow> pct m = Num 0) \<and>
         (\<forall>c t. CoverageMetric.total m = Num (of_int t) \<and> covered m = Num (of_int c) \<and>
                0 < t \<and> t < 2 ^ 53 \<and> \<bar>c\<bar> < 2 ^ 36 \<and>
                \<not> halfway (of_int c / of_int t * 100 * 100) \<longrightarrow>
                pct m = Num (fl (roundHalfUp2 (of_int c / of_int t * 100)))) \<and>
         (length (LcovRecord.lines r) = 10 \<and> length (hitLines (LcovRecord.lines r)) = 7 \<longrightarrow>
            pct (CoverageReport.lines (lcovToCoverageReport [r])) = Num 70) \<and>
         (LcovRecord.lines r = [] \<longrightarrow> pct (CoverageReport.lines (lcovToCoverageReport [r])) = Num 0)"
proof (intro conjI impI allI)
  assume "\<not> js_gt (CoverageMetric.total m) (Num 0)"
  then show "pct m = Num 0"
    by (simp add: metric_pct[OF assms] percentage_not_positive)
next
  fix c t :: int
  assume h: "CoverageMetric.total m = Num (of_int t) \<and> covered m = Num (of_int c) \<and>
      0 < t \<and> t < 2 ^ 53 \<and> \<bar>c\<bar> < 2 ^ 36 \<and> \<not> halfway (of_int c / of_int t * 100 * 100)"
  then have "percentage (Num (of_int c)) (Num (of_int t)) =
      Num (fl (roundHalfUp2 (of_int c / of_int t * 100)))"
    by (intro percentage_rounds) simp_all
  with h show "pct m = Num (fl (roundHalfUp2 (of_int c / of_int t * 100)))"
    by (simp add: metric_pct[OF assms])
next
  assume "length (LcovRecord.lines r) = 10 \<and> length (hitLines (LcovRecord.lines r)) = 7"
  then have "pct (CoverageReport.lines (lcovToCoverageReport [r])) = percentage (Num 7) (Num 10)"
    by (simp add: lcovToCoverageReport_def Let_def metric_def addRecord_def zeroCounters_def)
  then show "pct (CoverageReport.lines (lcovToCoverageReport [r])) = Num 70"
    by (simp only: seven_of_ten)
next
  assume "LcovRecord.lines r = []"
  then show "pct (CoverageReport.lines (lcovToCoverageReport [r])) = Num 0"
    by (simp add: lcovToCoverageReport_def Let_def metric_def addRecord_def zeroCounters_def
        hitLines_def percentage_def)
qed

theorem percentage_rule_witness:
  "pct (CoverageReport.lines (lcovToCoverageReport (parseLcovData
      (js ''SF:a.ts\<newline>DA:1,1\<newline>DA:2,1\<newline>DA:3,1\<newline>DA:4,0\<newline>DA:5,2\<newline>DA:6,0\<newline>DA:7,1\<newline>DA:8,0\<newline>DA:9,5\<newline>DA:10,1\<newline>end_of_record\<newline>'')))) =
     Num (fl (roundHalfUp2 (of_int 7 / of_int 10 * 100))) \<and>
   fl (roundHalfUp2 (7 / 10 * 100)) = 70 \<and>
   pct (CoverageReport.branches (lcovToCoverageReport (parseLcovData
      (js ''SF:a.ts\<newline>DA:1,1\<newline>DA:2,1\<newline>DA:3,1\<newline>DA:4,0\<newline>DA:5,2\<newline>DA:6,0\<newline>DA:7,1\<newline>DA:8,0\<newline>DA:9,5\<newline>DA:10,1\<newline>end_of_record\<newline>'')))) = Num 0"
proof -
  define R where "R =
    \<lparr>sourceFile = js ''a.ts'',
     LcovRecord.lines = [\<lparr>LineData.line = Num 1, hit = Num 1\<rparr>, \<lparr>LineData.line = Num 2, hit = Num 1\<rparr>, \<lparr>LineData.line = Num 3, hit = Num 1\<rparr>, \<lparr>LineData.line = Num 4, hit = Num 0\<rparr>, \<lparr>LineData.line = Num 5, hit = Num 2\<rparr>, \<lparr>LineData.line = Num 6, hit = Num 0\<rparr>, \<lparr>LineData.line = Num 7, hit = Num 1\<rparr>, \<lparr>LineData.line = Num 8, hit = Num 0\<rparr>, \<lparr>LineData.line = Num 9, hit = Num 5\<rparr>, \<lparr>LineData.line = Num 10, hit = Num 1\<rparr>],
     LcovRecord.functions' = \<lparr>found = Num 0, hit = Num 0\<rparr>,
     LcovRecord.branches = \<lparr>found = Num 0, hit = Num 0\<rparr>\<rparr>"
  have p: "parseLcovData (js ''SF:a.ts\<newline>DA:1,1\<newline>DA:2,1\<newline>DA:3,1\<newline>DA:4,0\<newline>DA:5,2\<newline>DA:6,0\<newline>DA:7,1\<newline>DA:8,0\<newline>DA:9,5\<newline>DA:10,1\<newline>end_of_record\<newline>'') = [R]"
    unfolding R_def by code_simp
  define m where "m = CoverageReport.lines (lcovToCoverageReport [R])"
  define b where "b = CoverageReport.branches (lcovToCoverageReport [R])"
  have mm: "m \<in> set (metricsOf (lcovToCoverageReport [R]))"
    and bm: "b \<in> set (metricsOf (lcovToCoverageReport [R]))"
    by (simp_all add: m_def b_def metricsOf_def)
  have tm: "CoverageMetric.total m = Num (of_int 10) \<and> covered m = Num (of_int 7) \<and>
      (0::int) < 10 \<and> (10::int) < 2 ^ 53 \<and> \<bar>7::int\<bar> < 2 ^ 36 \<and>
      \<not> halfway (of_int 7 / of_int 10 * 100 * 100)"
    unfolding m_def R_def by code_simp
  have tb: "\<not> js_gt (CoverageMetric.total b) (Num 0)"
    unfolding b_def R_def by code_simp
  from percentage_rule[OF mm, of R] tm
  have "pct m = Num (fl (roundHalfUp2 (of_int 7 / of_int 10 * 100)))"
    by blast
  moreover from percentage_rule[OF bm, of R] tb have "pct b = Num 0"
    by blast
  moreover have "fl (roundHalfUp2 (7 / 10 * 100)) = 70"
    by code_simp
  ultimately show ?thesis
    unfolding p m_def b_def by simp
qed


text \<open>
  The claim as stated, "\<open>pct\<close> is 0 when the total is 0 and the rounded ratio otherwise",
  fails for a total that is not zero and not positive: \<^verbatim>\<open>FNF:-2\<close> and \<^verbatim>\<open>FNH:-1\<close> give the
  functions metric the total \<open>-2\<close> and the covered count \<open>-1\<close>, whose rounded ratio is 50,
  and the guard \<^verbatim>\<open>totalFunctions > 0\<close> makes \<open>pct\<close> 0.
\<close>

theorem pct_not_positive_total:
  "CoverageMetric.total (CoverageReport.functions' (lcovToCoverageReport
      (parseLcovData (js ''SF:a.ts\<newline>FNF:-2\<newline>FNH:-1\<newline>end_of_record'')))) = Num (- 2) \<and>
   covered (CoverageReport.functions' (lcovToCoverageReport
      (parseLcovData (js ''SF:a.ts\<newline>FNF:-2\<newline>FNH:-1\<newline>end_of_record'')))) = Num (- 1) \<and>
   pct (CoverageReport.functions' (lcovToCoverageReport
      (parseLcovData (js ''SF:a.ts\<newline>FNF:-2\<newline>FNH:-1\<newline>end_of_record'')))) = Num 0 \<and>
   roundHalfUp2 (- 1 / - 2 * 100) = 50"
proof -
  have p: "parseLcovData (js ''SF:a.ts\<newline>FNF:-2\<newline>FNH:-1\<newline>end_of_record'') =
      [\<lparr>sourceFile = js ''a.ts'', LcovRecord.lines = [],
        LcovRecord.functions' = \<lparr>found = Num (- 2), hit = Num (- 1)\<rparr>,
        LcovRecord.branches = \<lparr>found = Num 0, hit = Num 0\<rparr>\<rparr>]"
    by code_simp
  show ?thesis
    unfolding p by code_simp
qed

text \<open>
  At an exact tie the computed product can fall below the tie: with 23 of 160 lines
  covered, \<^verbatim>\<open>(23 / 160) * 100 * 100\<close> is \<open>1437.4999999999998\<close> in binary64, and \<open>pct\<close> is
  14.37 where rounding the exact ratio 14.375 half up gives 14.38.
\<close>

lemma pct_tie_rounds_down:
  "percentage (Num 23) (Num 160) = Num (fl (1437 / 100)) \<and>
   roundHalfUp2 (23 / 160 * 100) = 1438 / 100 \<and> halfway (23 / 160 * 100 * 100) \<and>
   fl (1437 / 100) \<noteq> fl (1438 / 100)"
  by code_simp


text \<open>
  C2. A text made of N well-formed blocks (each possibly preceded by lines that are not
  \<^verbatim>\<open>SF:\<close> lines, and the whole possibly followed by such lines) parses to exactly N
  records, in the order of the blocks: the i-th record has the path of the i-th \<^verbatim>\<open>SF:\<close>
  line, and its \<open>lines\<close> are the \<^verbatim>\<open>DA:\<close> lines of the i-th block, one entry for each, in
  their order of appearance, so that a repeated line number gives repeated entries.
\<close>

theorem parser_blocks:
  assumes "\<forall>b\<in>set bs. wellFormed b"
    and "\<forall>l\<in>set trailer. \<not> isSF l"
    and "list_all isLine (concat (map blockLines bs) @ trailer)"
  shows "length (parseLcovData (js_join (concat (map blockLines bs) @ trailer))) = length bs \<and>
         map sourceFile (parseLcovData (js_join (concat (map blockLines bs) @ trailer))) =
           map (\<lambda>b. pathOf (sfLine b)) bs \<and>
         map LcovRecord.lines (parseLcovData (js_join (concat (map blockLines bs) @ trailer))) =
           map (\<lambda>b. dataLines (body b)) bs"
proof -
  let ?st = "runLines \<lparr>records = [], currentRecord = None\<rparr> (concat (map blockLines bs))"
  have b: "currentRecord ?st = None"
    "map sourceFile (records ?st) = map (\<lambda>b. pathOf (sfLine b)) bs"
    "map LcovRecord.lines (records ?st) = map (\<lambda>b. dataLines (body b)) bs"
    using runLines_blocks[OF assms(1), of "\<lparr>records = [], currentRecord = None\<rparr>"] by simp_all
  have "parseLcovData (js_join (concat (map blockLines bs) @ trailer)) = records ?st"
    using runLines_closed[OF assms(2) b(1)]
    by (simp add: parseLcovData_join[OF assms(3)] runLines_simps)
  with b show ?thesis
    by (metis length_map)
qed

theorem parser_blocks_witness:
  "length (parseLcovData (js ''TN:\<newline>SF:src/a.ts\<newline>DA:3,1\<newline>DA:1,0\<newline>FNF:2\<newline>DA:3,4\<newline>end_of_record\<newline>SF:b.ts\<newline>end_of_record\<newline>'')) = 2 \<and>
   map sourceFile (parseLcovData (js ''TN:\<newline>SF:src/a.ts\<newline>DA:3,1\<newline>DA:1,0\<newline>FNF:2\<newline>DA:3,4\<newline>end_of_record\<newline>SF:b.ts\<newline>end_of_record\<newline>'')) =
     [js ''src/a.ts'', js ''b.ts''] \<and>
   map LcovRecord.lines (parseLcovData (js ''TN:\<newline>SF:src/a.ts\<newline>DA:3,1\<newline>DA:1,0\<newline>FNF:2\<newline>DA:3,4\<newline>end_of_record\<newline>SF:b.ts\<newline>end_of_record\<newline>'')) =
     [[\<lparr>LineData.line = Num 3, hit = Num 1\<rparr>, \<lparr>LineData.line = Num 1, hit = Num 0\<rparr>,
       \<lparr>LineData.line = Num 3, hit = Num 4\<rparr>], []]"
proof -
  define bs where "bs =
    [\<lparr>leading = [js ''TN:''], sfLine = js ''SF:src/a.ts'',
      body = [js ''DA:3,1'', js ''DA:1,0'', js ''FNF:2'', js ''DA:3,4''],
      endLine = js ''end_of_record''\<rparr>,
     \<lparr>leading = [], sfLine = js ''SF:b.ts'', body = [], endLine = js ''end_of_record''\<rparr>]"
  have wf: "\<forall>b\<in>set bs. wellFormed b"
    unfolding bs_def by code_simp
  have tr: "\<forall>l\<in>set [[]]. \<not> isSF l"
    by code_simp
  have li: "list_all isLine (concat (map blockLines bs) @ [[]])"
    unfolding bs_def by code_simp
  have tx: "js_join (concat (map blockLines bs) @ [[]]) =
      js ''TN:\<newline>SF:src/a.ts\<newline>DA:3,1\<newline>DA:1,0\<newline>FNF:2\<newline>DA:3,4\<newline>end_of_record\<newline>SF:b.ts\<newline>end_of_record\<newline>''"
    unfolding bs_def by code_simp
  have p1: "map (\<lambda>b. pathOf (sfLine b)) bs = [js ''src/a.ts'', js ''b.ts'']"
    unfolding bs_def by code_simp
  have p2: "map (\<lambda>b. dataLines (body b)) bs =
      [[\<lparr>LineData.line = Num 3, hit = Num 1\<rparr>, \<lparr>LineData.line = Num 1, hit = Num 0\<rparr>,
        \<lparr>LineData.line = Num 3, hit = Num 4\<rparr>], []]"
    unfolding bs_def by code_simp
  have n: "length bs = 2"
    by (simp add: bs_def)
  show ?thesis
    using parser_blocks[OF wf tr li] unfolding tx p1 p2 n .
qed


text \<open>
  C5. A record reaches the output only through an \<^verbatim>\<open>SF:\<close> line with a non-empty path and
  a later \<^verbatim>\<open>end_of_record\<close> line: every record parsed has a non-empty \<open>sourceFile\<close> that
  is the path of an \<^verbatim>\<open>SF:\<close> line of the text, and there are at most as many records as
  \<^verbatim>\<open>end_of_record\<close> lines. Lines after which no \<^verbatim>\<open>end_of_record\<close> follows before the end
  of the input contribute nothing, and a record that is still open when the next
  \<^verbatim>\<open>SF:\<close> line arrives is dropped: the text parses as if it had never been opened.
\<close>

theorem parser_materializes:
  "(\<forall>r\<in>set (parseLcovData lcovContent).
      sourceFile r \<noteq> [] \<and> sourceFile r \<in> sourcesOf (js_split newline lcovContent)) \<and>
   length (parseLcovData lcovContent) \<le> length (filter isEnd (js_split newline lcovContent)) \<and>
   (list_all isLine (before @ after) \<and> (\<forall>x\<in>set after. \<not> isEnd x) \<longrightarrow>
      parseLcovData (js_join (before @ after)) = parseLcovData (js_join before)) \<and>
   (list_all isLine (front @ [opened] @ inside @ [reopened] @ rest) \<and> isSF opened \<and>
    (\<forall>x\<in>set inside. \<not> isEnd x) \<and> isSF reopened \<longrightarrow>
      parseLcovData (js_join (front @ [opened] @ inside @ [reopened] @ rest)) =
      parseLcovData (js_join (front @ [reopened] @ rest)))"
proof (intro conjI impI)
  let ?init = "\<lparr>records = [], currentRecord = None\<rparr>"
  have "sourced (sourcesOf (js_split newline lcovContent)) (runLines ?init (js_split newline lcovContent))"
    by (rule runLines_sourced) (auto simp: sourced_def sourcesOf_def)
  then show "\<forall>r\<in>set (parseLcovData lcovContent).
      sourceFile r \<noteq> [] \<and> sourceFile r \<in> sourcesOf (js_split newline lcovContent)"
    by (simp add: parseLcovData_def parseLines_def runLines_def sourced_def)
  show "length (parseLcovData lcovContent) \<le> length (filter isEnd (js_split newline lcovContent))"
    using runLines_count[of ?init "js_split newline lcovContent"]
    by (simp add: parseLcovData_def parseLines_def runLines_def)
next
  assume "list_all isLine (before @ after) \<and> (\<forall>x\<in>set after. \<not> isEnd x)"
  then show "parseLcovData (js_join (before @ after)) = parseLcovData (js_join before)"
    by (simp add: parseLcovData_join runLines_simps runLines_records)
next
  assume a: "list_all isLine (front @ [opened] @ inside @ [reopened] @ rest) \<and> isSF opened \<and>
    (\<forall>x\<in>set inside. \<not> isEnd x) \<and> isSF reopened"
  then have ne: "\<forall>x\<in>set (opened # inside). \<not> isEnd x"
    by (auto simp: isSF_def isEnd_def end_not_directive)
  have "runLines st ((opened # inside) @ [reopened]) = runLines st [reopened]" for st
    using ne a by (intro runLines_abandon) auto
  then have "runLines st ([opened] @ inside @ [reopened] @ rest) = runLines st ([reopened] @ rest)"
    for st
    by (metis append_Cons append_Nil append_assoc runLines_simps(3))
  with a show "parseLcovData (js_join (front @ [opened] @ inside @ [reopened] @ rest)) =
      parseLcovData (js_join (front @ [reopened] @ rest))"
    by (simp add: parseLcovData_join runLines_simps(3))
qed

theorem parser_materializes_witness:
  "parseLcovData (js ''SF:a.ts\<newline>DA:1,1\<newline>end_of_record\<newline>SF:b.ts\<newline>DA:2,2'') \<noteq> [] \<and>
   list_all (\<lambda>r. sourceFile r \<noteq> [])
     (parseLcovData (js ''SF:a.ts\<newline>DA:1,1\<newline>end_of_record\<newline>SF:b.ts\<newline>DA:2,2'')) \<and>
   length (parseLcovData (js ''SF:a.ts\<newline>DA:1,1\<newline>end_of_record\<newline>SF:b.ts\<newline>DA:2,2'')) \<le> 1 \<and>
   parseLcovData (js ''SF:a.ts\<newline>DA:1,1\<newline>end_of_record\<newline>SF:b.ts\<newline>DA:2,2'') =
     parseLcovData (js ''SF:a.ts\<newline>DA:1,1\<newline>end_of_record'') \<and>
   parseLcovData (js ''SF:x.ts\<newline>DA:1,1\<newline>SF:b.ts\<newline>end_of_record'') =
     parseLcovData (js ''SF:b.ts\<newline>end_of_record'')"
proof -
  let ?T = "js ''SF:a.ts\<newline>DA:1,1\<newline>end_of_record\<newline>SF:b.ts\<newline>DA:2,2''"
  let ?before = "[js ''SF:a.ts'', js ''DA:1,1'', js ''end_of_record'']"
  let ?after = "[js ''SF:b.ts'', js ''DA:2,2'']"
  note a = parser_materializes[of ?T ?before ?after "[]" "js ''SF:x.ts''" "[js ''DA:1,1'']"
      "js ''SF:b.ts''" "[js ''end_of_record'']"]
  have ne: "parseLcovData ?T \<noteq> []"
    by code_simp
  have n: "length (filter isEnd (js_split newline ?T)) = 1"
    by code_simp
  have h3: "list_all isLine (?before @ ?after) \<and> (\<forall>x\<in>set ?after. \<not> isEnd x)"
    by code_simp
  have h4: "list_all isLine ([] @ [js ''SF:x.ts''] @ [js ''DA:1,1''] @ [js ''SF:b.ts''] @
        [js ''end_of_record'']) \<and>
      isSF (js ''SF:x.ts'') \<and> (\<forall>x\<in>set [js ''DA:1,1'']. \<not> isEnd x) \<and> isSF (js ''SF:b.ts'')"
    by code_simp
  have t: "js_join (?before @ ?after) = ?T"
    "js_join ?before = js ''SF:a.ts\<newline>DA:1,1\<newline>end_of_record''"
    "js_join ([] @ [js ''SF:x.ts''] @ [js ''DA:1,1''] @ [js ''SF:b.ts''] @ [js ''end_of_record'']) =
       js ''SF:x.ts\<newline>DA:1,1\<newline>SF:b.ts\<newline>end_of_record''"
    "js_join ([] @ [js ''SF:b.ts''] @ [js ''end_of_record'']) = js ''SF:b.ts\<newline>end_of_record''"
    by code_simp+
  from a have "list_all (\<lambda>r. sourceFile r \<noteq> []) (parseLcovData ?T)"
    by (simp add: list_all_iff)
  moreover from a n have "length (parseLcovData ?T) \<le> 1"
    by simp
  moreover from a h3 have "parseLcovData ?T = parseLcovData (js ''SF:a.ts\<newline>DA:1,1\<newline>end_of_record'')"
    unfolding t by blast
  moreover from a h4 have "parseLcovData (js ''SF:x.ts\<newline>DA:1,1\<newline>SF:b.ts\<newline>end_of_record'') =
      parseLcovData (js ''SF:b.ts\<newline>end_of_record'')"
    unfolding t by blast
  ultimately show ?thesis
    using ne by simp
qed

text \<open>
  C8. The parser is tolerant. A line that trims to nothing or matches no directive can
  be inserted anywhere in a text, and a \<^verbatim>\<open>DA:\<close>, \<^verbatim>\<open>FNF:\<close>, \<^verbatim>\<open>FNH:\<close>, \<^verbatim>\<open>BRF:\<close> or \<^verbatim>\<open>BRH:\<close>
  line can be inserted wherever no record is open, and the records parsed stay the
  same. (That the parser returns for every text is how it is built: no operation of
  the source can throw, and its loop runs once over the lines, so \<open>parseLcovData\<close> has
  no error result.)
\<close>

theorem parser_tolerant:
  assumes "list_all isLine (before @ [l] @ after)"
    and "isIgnored l \<or> ((isDA l \<or> isCounter l) \<and> currentRecord (parseLines before) = None)"
  shows "parseLcovData (js_join (before @ [l] @ after)) = parseLcovData (js_join (before @ after))"
  using assms
  by (auto simp: parseLcovData_join runLines_simps parseLine_ignored parseLine_no_record
      parseLines_def runLines_def[symmetric])

theorem parser_tolerant_witness:
  "parseLcovData (js ''SF:a.ts\<newline>  \<newline>DA:1,1\<newline>end_of_record'') =
     parseLcovData (js ''SF:a.ts\<newline>DA:1,1\<newline>end_of_record'') \<and>
   parseLcovData (js ''SF:a.ts\<newline>VER:2\<newline>DA:1,1\<newline>end_of_record'') =
     parseLcovData (js ''SF:a.ts\<newline>DA:1,1\<newline>end_of_record'') \<and>
   parseLcovData (js ''SF:a.ts\<newline>end_of_record\<newline>FNF:3\<newline>SF:b.ts\<newline>end_of_record'') =
     parseLcovData (js ''SF:a.ts\<newline>end_of_record\<newline>SF:b.ts\<newline>end_of_record'')"
proof -
  have l1: "list_all isLine ([js ''SF:a.ts''] @ [js ''  ''] @ [js ''DA:1,1'', js ''end_of_record''])"
    and l2: "list_all isLine ([js ''SF:a.ts''] @ [js ''VER:2''] @ [js ''DA:1,1'', js ''end_of_record''])"
    and l3: "list_all isLine ([js ''SF:a.ts'', js ''end_of_record''] @ [js ''FNF:3''] @
               [js ''SF:b.ts'', js ''end_of_record''])"
    by code_simp+
  have h1: "isIgnored (js ''  '') \<or>
      ((isDA (js ''  '') \<or> isCounter (js ''  '')) \<and> currentRecord (parseLines [js ''SF:a.ts'']) = None)"
    and h2: "isIgnored (js ''VER:2'') \<or>
      ((isDA (js ''VER:2'') \<or> isCounter (js ''VER:2'')) \<and>
       currentRecord (parseLines [js ''SF:a.ts'']) = None)"
    and h3: "isIgnored (js ''FNF:3'') \<or>
      ((isDA (js ''FNF:3'') \<or> isCounter (js ''FNF:3'')) \<and>
       currentRecord (parseLines [js ''SF:a.ts'', js ''end_of_record'']) = None)"
    by code_simp+
  have t: "js_join ([js ''SF:a.ts''] @ [js ''  ''] @ [js ''DA:1,1'', js ''end_of_record'']) =
        js ''SF:a.ts\<newline>  \<newline>DA:1,1\<newline>end_of_record''"
    "js_join ([js ''SF:a.ts''] @ [js ''VER:2''] @ [js ''DA:1,1'', js ''end_of_record'']) =
        js ''SF:a.ts\<newline>VER:2\<newline>DA:1,1\<newline>end_of_record''"
    "js_join ([js ''SF:a.ts''] @ [js ''DA:1,1'', js ''end_of_record'']) =
        js ''SF:a.ts\<newline>DA:1,1\<newline>end_of_record''"
    "js_join ([js ''SF:a.ts'', js ''end_of_record''] @ [js ''FNF:3''] @
               [js ''SF:b.ts'', js ''end_of_record'']) =
        js ''SF:a.ts\<newline>end_of_record\<newline>FNF:3\<newline>SF:b.ts\<newline>end_of_record''"
    "js_join ([js ''SF:a.ts'', js ''end_of_record''] @ [js ''SF:b.ts'', js ''end_of_record'']) =
        js ''SF:a.ts\<newline>end_of_record\<newline>SF:b.ts\<newline>end_of_record''"
    by code_simp+
  show ?thesis
    using parser_tolerant[OF l1 h1] parser_tolerant[OF l2 h2] parser_tolerant[OF l3 h3]
    unfolding t by simp
qed




text \<open>
  C4. When the path cannot be resolved or the file cannot be read, the summary entry
  point logs through \<^verbatim>\<open>core.setFailed\<close> and rethrows what was thrown, so it returns no
  summary, and the final-map entry point logs a warning and returns the empty object.
\<close>

theorem loader_failure:
  assumes "resolve env lcovPath = Inl err \<or>
           (\<exists>resolved. resolve env lcovPath = Inr resolved \<and> readFile env resolved = Inl err)"
  shows "parseBunLcovSummary env lcovPath = ([SetFailed lcovPath (stackOf err)], Inl err) \<and>
         parseBunLcovFinal env lcovPath = ([Warning lcovPath (stackOf err)], Inr [])"
proof -
  from assms have "readRecords env lcovPath = Inl err"
    by (auto simp: readRecords_def)
  then show ?thesis
    by (simp add: parseBunLcovSummary_def parseBunLcovFinal_def)
qed

theorem loader_failure_witness:
  "parseBunLcovSummary \<lparr>resolve = Inr, readFile = (\<lambda>p. Inl (Error (js ''ENOENT'')))\<rparr> (js ''coverage/lcov.info'') =
     ([SetFailed (js ''coverage/lcov.info'') (js ''ENOENT'')], Inl (Error (js ''ENOENT''))) \<and>
   parseBunLcovFinal \<lparr>resolve = Inr, readFile = (\<lambda>p. Inl (Error (js ''ENOENT'')))\<rparr> (js ''coverage/lcov.info'') =
     ([Warning (js ''coverage/lcov.info'') (js ''ENOENT'')], Inr [])"
proof -
  let ?env = "\<lparr>resolve = Inr, readFile = (\<lambda>p. Inl (Error (js ''ENOENT'')))\<rparr>"
  have h: "resolve ?env (js ''coverage/lcov.info'') = Inl (Error (js ''ENOENT'')) \<or>
      (\<exists>resolved. resolve ?env (js ''coverage/lcov.info'') = Inr resolved \<and>
         readFile ?env resolved = Inl (Error (js ''ENOENT'')))"
    by simp
  have st: "stackOf (Error (js ''ENOENT'')) = js ''ENOENT''"
    by (simp add: stackOf_def)
  show ?thesis
    using loader_failure[OF h] unfolding st .
qed


text \<open>
  C3. The counts of the aggregator are additive (\<open>aggregator_additive\<close>,
  \<open>lines_total_sum\<close>), and the \<^verbatim>\<open>total\<close> entry of the summary is the aggregate of all
  records when no record is itself named \<^verbatim>\<open>total\<close> (\<open>summary_total\<close>). A record whose
  \<open>sourceFile\<close> is \<^verbatim>\<open>total\<close> is written to the same key after the aggregate and replaces
  it: for two files of one line each, the first of them named \<^verbatim>\<open>total\<close>, the aggregate
  counts two lines and the \<^verbatim>\<open>total\<close> entry of the summary counts one.
\<close>

theorem summary_total_shadowed:
  "CoverageMetric.total (CoverageReport.lines (lcovToCoverageReport
      (parseLcovData (js ''SF:total\<newline>DA:1,1\<newline>end_of_record\<newline>SF:a.ts\<newline>DA:1,0\<newline>end_of_record'')))) = Num 2 \<and>
   map_option (\<lambda>b. CoverageMetric.total (CoverageReport.lines b))
     (get (lcovToJsonSummary
        (parseLcovData (js ''SF:total\<newline>DA:1,1\<newline>end_of_record\<newline>SF:a.ts\<newline>DA:1,0\<newline>end_of_record'')))
        (js ''total'')) = Some (Num 1)"
proof -
  have p: "parseLcovData (js ''SF:total\<newline>DA:1,1\<newline>end_of_record\<newline>SF:a.ts\<newline>DA:1,0\<newline>end_of_record'') =
      [\<lparr>sourceFile = js ''total'', LcovRecord.lines = [\<lparr>LineData.line = Num 1, hit = Num 1\<rparr>],
        LcovRecord.functions' = \<lparr>found = Num 0, hit = Num 0\<rparr>,
        LcovRecord.branches = \<lparr>found = Num 0, hit = Num 0\<rparr>\<rparr>,
       \<lparr>sourceFile = js ''a.ts'', LcovRecord.lines = [\<lparr>LineData.line = Num 1, hit = Num 0\<rparr>],
        LcovRecord.functions' = \<lparr>found = Num 0, hit = Num 0\<rparr>,
        LcovRecord.branches = \<lparr>found = Num 0, hit = Num 0\<rparr>\<rparr>]"
    by code_simp
  show ?thesis
    unfolding p by code_simp
qed

text \<open>
  C7. The summary holds the key \<^verbatim>\<open>total\<close> first and then the \<open>sourceFile\<close>s in the order
  of their first record (\<open>summary_keys\<close>), and the entry of a \<open>sourceFile\<close> is the bundle
  of its last record (\<open>summary_last_write_wins\<close>). Two records that share the
  \<open>sourceFile\<close> \<^verbatim>\<open>total\<close> overwrite the aggregate as well: the summary then has the single
  key \<^verbatim>\<open>total\<close>, whose entry is the bundle of the second record alone (one line, none
  covered), while the aggregate of both records counts two lines, one covered.
\<close>

theorem summary_total_overwritten:
  "keys (lcovToJsonSummary
      (parseLcovData (js ''SF:total\<newline>DA:1,1\<newline>end_of_record\<newline>SF:total\<newline>DA:2,0\<newline>end_of_record''))) = [js ''total''] \<and>
   map_option (\<lambda>b. (CoverageMetric.total (CoverageReport.lines b), covered (CoverageReport.lines b)))
     (get (lcovToJsonSummary
        (parseLcovData (js ''SF:total\<newline>DA:1,1\<newline>end_of_record\<newline>SF:total\<newline>DA:2,0\<newline>end_of_record'')))
        (js ''total'')) = Some (Num 1, Num 0) \<and>
   CoverageMetric.total (CoverageReport.lines (lcovToCoverageReport
      (parseLcovData (js ''SF:total\<newline>DA:1,1\<newline>end_of_record\<newline>SF:total\<newline>DA:2,0\<newline>end_of_record'')))) = Num 2 \<and>
   covered (CoverageReport.lines (lcovToCoverageReport
      (parseLcovData (js ''SF:total\<newline>DA:1,1\<newline>end_of_record\<newline>SF:total\<newline>DA:2,0\<newline>end_of_record'')))) = Num 1"
proof -
  have p: "parseLcovData (js ''SF:total\<newline>DA:1,1\<newline>end_of_record\<newline>SF:total\<newline>DA:2,0\<newline>end_of_record'') =
      [\<lparr>sourceFile = js ''total'', LcovRecord.lines = [\<lparr>LineData.line = Num 1, hit = Num 1\<rparr>],
        LcovRecord.functions' = \<lparr>found = Num 0, hit = Num 0\<rparr>,
        LcovRecord.branches = \<lparr>found = Num 0, hit = Num 0\<rparr>\<rparr>,
       \<lparr>sourceFile = js ''total'', LcovRecord.lines = [\<lparr>LineData.line = Num 2, hit = Num 0\<rparr>],
        LcovRecord.functions' = \<lparr>found = Num 0, hit = Num 0\<rparr>,
        LcovRecord.branches = \<lparr>found = Num 0, hit = Num 0\<rparr>\<rparr>]"
    by code_simp
  show ?thesis
    unfolding p by code_simp
qed

end
